theory Spec2Isabelle
  imports Complex_Main
begin

section \<open>The item registry of main.py\<close>

subsection \<open>Data model\<close>

text \<open>
  The pydantic model \<^verbatim>\<open>Item\<close>: \<^verbatim>\<open>id: int\<close>, \<^verbatim>\<open>name: str\<close>,
  \<^verbatim>\<open>price: float\<close>, \<^verbatim>\<open>description: Optional[str] = None\<close>. Python's \<^verbatim>\<open>int\<close>
  is unbounded, hence \<open>int\<close>. The handlers never read or compute with the price, so
  its type is left as the parameter \<open>'p\<close>: every result below holds for any
  representation of the float. The field \<^verbatim>\<open>id\<close> is written \<open>id'\<close>, since \<open>id\<close> is
  the identity function of HOL. The stored \<^verbatim>\<open>item.dict()\<close> has the same four keys
  and is modelled by the same record.
\<close>

record 'p Item =
  id' :: int
  name :: string
  price :: 'p
  description :: "string option"

text \<open>\<^verbatim>\<open>HTTPException(status_code=..., detail=...)\<close>.\<close>

datatype HTTPException = HTTPException (status_code: int) (detail: string)

text \<open>The two errors the handlers raise, under the names the specification gives them.\<close>

definition DuplicateKey :: HTTPException where
  "DuplicateKey = HTTPException 400 ''Item with this ID already exists''"

definition NotFound :: HTTPException where
  "NotFound = HTTPException 404 ''Item not found''"

text \<open>
  The module-level list \<^verbatim>\<open>items_db\<close> is the state. Every handler takes it and
  returns its result together with the list it leaves behind; a raised exception is
  \<open>Inl\<close>, a returned value \<open>Inr\<close>.
\<close>

type_synonym 'p items_db = "'p Item list"

type_synonym ('p, 'a) response = "(HTTPException + 'a) \<times> 'p items_db"

subsection \<open>Handlers\<close>

text \<open>
  \<^verbatim>\<open>create_item\<close>: the \<^verbatim>\<open>for existing_item in items_db\<close> loop raises at the first
  stored item with the new item's id; when the loop ends, the item is appended and
  returned. The loop runs over the remaining items \<open>todo\<close> while \<open>items_db\<close> is the
  whole list.
\<close>

fun create_item_loop :: "'p Item list \<Rightarrow> 'p Item \<Rightarrow> 'p items_db \<Rightarrow> ('p, 'p Item) response" where
  "create_item_loop [] item items_db = (Inr item, items_db @ [item])"
| "create_item_loop (existing_item # todo) item items_db =
     (if id' existing_item = id' item then (Inl DuplicateKey, items_db)
      else create_item_loop todo item items_db)"

definition create_item :: "'p Item \<Rightarrow> 'p items_db \<Rightarrow> ('p, 'p Item) response" where
  "create_item item items_db = create_item_loop items_db item items_db"

text \<open>\<^verbatim>\<open>get_all_items\<close> returns the list itself.\<close>

definition get_all_items :: "'p items_db \<Rightarrow> ('p, 'p Item list) response" where
  "get_all_items items_db = (Inr items_db, items_db)"

text \<open>\<^verbatim>\<open>get_item\<close>: returns the first stored item with the id, raises when the loop ends.\<close>

fun get_item_loop :: "'p Item list \<Rightarrow> int \<Rightarrow> 'p items_db \<Rightarrow> ('p, 'p Item) response" where
  "get_item_loop [] item_id items_db = (Inl NotFound, items_db)"
| "get_item_loop (item # todo) item_id items_db =
     (if id' item = item_id then (Inr item, items_db)
      else get_item_loop todo item_id items_db)"

definition get_item :: "int \<Rightarrow> 'p items_db \<Rightarrow> ('p, 'p Item) response" where
  "get_item item_id items_db = get_item_loop items_db item_id items_db"

text \<open>
  \<^verbatim>\<open>update_item\<close>: the loop runs over \<^verbatim>\<open>enumerate(items_db)\<close>; at the first pair
  whose item has the id it assigns \<^verbatim>\<open>items_db[idx] = updated_item.dict()\<close> and returns
  \<^verbatim>\<open>updated_item\<close>. The index comes from the enumeration of the list, so the
  assignment is always in range.
\<close>

fun update_item_loop ::
  "(nat \<times> 'p Item) list \<Rightarrow> int \<Rightarrow> 'p Item \<Rightarrow> 'p items_db \<Rightarrow> ('p, 'p Item) response" where
  "update_item_loop [] item_id updated_item items_db = (Inl NotFound, items_db)"
| "update_item_loop ((idx, item) # todo) item_id updated_item items_db =
     (if id' item = item_id then (Inr updated_item, items_db[idx := updated_item])
      else update_item_loop todo item_id updated_item items_db)"

definition update_item :: "int \<Rightarrow> 'p Item \<Rightarrow> 'p items_db \<Rightarrow> ('p, 'p Item) response" where
  "update_item item_id updated_item items_db =
     update_item_loop (enumerate 0 items_db) item_id updated_item items_db"

text \<open>
  \<^verbatim>\<open>delete_item\<close>: at the first pair whose item has the id, \<^verbatim>\<open>del items_db[idx]\<close>
  removes that position and the handler returns the dict
  \<^verbatim>\<open>{"message": "Item deleted successfully"}\<close>.
\<close>

definition del_at :: "nat \<Rightarrow> 'a list \<Rightarrow> 'a list" where
  "del_at idx xs = take idx xs @ drop (Suc idx) xs"

definition deleted_message :: "string \<rightharpoonup> string" where
  "deleted_message = [''message'' \<mapsto> ''Item deleted successfully'']"

fun delete_item_loop ::
  "(nat \<times> 'p Item) list \<Rightarrow> int \<Rightarrow> 'p items_db \<Rightarrow> ('p, string \<rightharpoonup> string) response" where
  "delete_item_loop [] item_id items_db = (Inl NotFound, items_db)"
| "delete_item_loop ((idx, item) # todo) item_id items_db =
     (if id' item = item_id then (Inr deleted_message, del_at idx items_db)
      else delete_item_loop todo item_id items_db)"

definition delete_item :: "int \<Rightarrow> 'p items_db \<Rightarrow> ('p, string \<rightharpoonup> string) response" where
  "delete_item item_id items_db = delete_item_loop (enumerate 0 items_db) item_id items_db"

subsection \<open>Requests and reachable states\<close>

text \<open>
  A request is one call of a handler with its arguments. \<open>handle\<close> gives the list a
  request leaves behind, and \<open>run\<close> serves a sequence of requests in order. The
  registry starts as \<^verbatim>\<open>items_db = []\<close>.
\<close>

datatype 'p request =
    Create "'p Item"
  | ListAll
  | Get int
  | Update int "'p Item"
  | Delete int

fun handle :: "'p request \<Rightarrow> 'p items_db \<Rightarrow> 'p items_db" where
  "handle (Create item) items_db = snd (create_item item items_db)"
| "handle ListAll items_db = snd (get_all_items items_db)"
| "handle (Get item_id) items_db = snd (get_item item_id items_db)"
| "handle (Update item_id updated_item) items_db = snd (update_item item_id updated_item items_db)"
| "handle (Delete item_id) items_db = snd (delete_item item_id items_db)"

fun run :: "'p request list \<Rightarrow> 'p items_db \<Rightarrow> 'p items_db" where
  "run [] items_db = items_db"
| "run (r # rs) items_db = run rs (handle r items_db)"

definition reachable :: "'p items_db \<Rightarrow> bool" where
  "reachable items_db \<longleftrightarrow> (\<exists>rs. items_db = run rs [])"

text \<open>The position of the first stored item with a given id, if there is one.\<close>

fun first_match :: "int \<Rightarrow> 'p Item list \<Rightarrow> nat option" where
  "first_match item_id [] = None"
| "first_match item_id (item # todo) =
     (if id' item = item_id then Some 0
      else map_option Suc (first_match item_id todo))"

subsection \<open>Uniqueness of ids\<close>

text \<open>At most one stored item has any given id.\<close>

definition unique_ids :: "'p items_db \<Rightarrow> bool" where
  "unique_ids items_db \<longleftrightarrow> distinct (map id' items_db)"

text \<open>
  A request keeps ids when it is not an update whose body carries an id other than the
  id of the path.
\<close>

fun id_kept :: "'p request \<Rightarrow> bool" where
  "id_kept (Update item_id updated_item) = (id' updated_item = item_id)"
| "id_kept _ = True"

subsection \<open>Example items\<close>

text \<open>
  The items of the scenario of the specification, with the price as a real number:
  \<^verbatim>\<open>{id:1, name:"Pen", price:1.5}\<close>,
  \<^verbatim>\<open>{id:2, name:"Book", price:9.99, description:"novel"}\<close> and its update
  \<^verbatim>\<open>{id:2, name:"Book", price:12.0}\<close>; and a body for \<^verbatim>\<open>PUT /items/2\<close> whose
  embedded id is 1.
\<close>

definition pen :: "real Item" where
  "pen = \<lparr>id' = 1, name = ''Pen'', price = 3 / 2, description = None\<rparr>"

definition book :: "real Item" where
  "book = \<lparr>id' = 2, name = ''Book'', price = 999 / 100, description = Some ''novel''\<rparr>"

definition book12 :: "real Item" where
  "book12 = \<lparr>id' = 2, name = ''Book'', price = 12, description = None\<rparr>"

definition pencil :: "real Item" where
  "pencil = \<lparr>id' = 1, name = ''Pencil'', price = 1 / 2, description = None\<rparr>"

section \<open>Properties\<close>

subsection \<open>The loops find the first stored item with the id\<close>

lemmas example_defs = pen_def book_def book12_def pencil_def

lemma first_match_None: "first_match item_id xs = None \<longleftrightarrow> (\<forall>x\<in>set xs. id' x \<noteq> item_id)"
  by (induction xs) auto

lemma first_match_SomeD:
  "first_match item_id xs = Some i \<Longrightarrow>
     i < length xs \<and> id' (xs ! i) = item_id \<and> (\<forall>j<i. id' (xs ! j) \<noteq> item_id)"
proof (induction xs arbitrary: i)
  case Nil
  then show ?case by simp
next
  case (Cons x xs)
  show ?case
  proof (cases "id' x = item_id")
    case True
    with Cons.prems show ?thesis by simp
  next
    case False
    with Cons.prems obtain k where k: "first_match item_id xs = Some k" "i = Suc k"
      by auto
    from Cons.IH [OF k(1)] False k(2) show ?thesis
      by (auto simp: less_Suc_eq_0_disj)
  qed
qed

lemma first_match_SomeI:
  "i < length xs \<Longrightarrow> id' (xs ! i) = item_id \<Longrightarrow> \<forall>j<i. id' (xs ! j) \<noteq> item_id \<Longrightarrow>
     first_match item_id xs = Some i"
proof (induction xs arbitrary: i)
  case Nil
  then show ?case by simp
next
  case (Cons x xs)
  show ?case
  proof (cases i)
    case 0
    with Cons.prems show ?thesis by simp
  next
    case (Suc k)
    with Cons.prems have "id' x \<noteq> item_id" by auto
    moreover from Suc Cons.prems have "first_match item_id xs = Some k"
      by (intro Cons.IH) auto
    ultimately show ?thesis using Suc by simp
  qed
qed

lemma create_item_loop_fresh:
  "\<forall>x\<in>set todo. id' x \<noteq> id' item \<Longrightarrow> create_item_loop todo item db = (Inr item, db @ [item])"
  by (induction todo) auto

lemma create_item_loop_dup:
  "\<exists>x\<in>set todo. id' x = id' item \<Longrightarrow> create_item_loop todo item db = (Inl DuplicateKey, db)"
  by (induction todo) auto

lemma get_item_loop_first:
  "get_item_loop todo item_id db =
     (case first_match item_id todo of None \<Rightarrow> (Inl NotFound, db) | Some i \<Rightarrow> (Inr (todo ! i), db))"
  by (induction todo) (auto split: option.splits)

lemma update_item_loop_first:
  "update_item_loop (enumerate n todo) item_id X db =
     (case first_match item_id todo of None \<Rightarrow> (Inl NotFound, db)
      | Some i \<Rightarrow> (Inr X, db[n + i := X]))"
  by (induction todo arbitrary: n) (auto split: option.splits)

lemma delete_item_loop_first:
  "delete_item_loop (enumerate n todo) item_id db =
     (case first_match item_id todo of None \<Rightarrow> (Inl NotFound, db)
      | Some i \<Rightarrow> (Inr deleted_message, del_at (n + i) db))"
  by (induction todo arbitrary: n) (auto split: option.splits)

lemma get_item_first:
  "get_item item_id db =
     (case first_match item_id db of None \<Rightarrow> (Inl NotFound, db) | Some i \<Rightarrow> (Inr (db ! i), db))"
  by (simp add: get_item_def get_item_loop_first)

lemma update_item_first:
  "update_item item_id X db =
     (case first_match item_id db of None \<Rightarrow> (Inl NotFound, db) | Some i \<Rightarrow> (Inr X, db[i := X]))"
  by (simp add: update_item_def update_item_loop_first cong: option.case_cong)

lemma delete_item_first:
  "delete_item item_id db =
     (case first_match item_id db of None \<Rightarrow> (Inl NotFound, db)
      | Some i \<Rightarrow> (Inr deleted_message, del_at i db))"
  by (simp add: delete_item_def delete_item_loop_first cong: option.case_cong)

lemma first_match_exists:
  "\<exists>x\<in>set xs. id' x = item_id \<Longrightarrow> \<exists>i. first_match item_id xs = Some i"
  using first_match_None [of item_id xs] by (cases "first_match item_id xs") auto

lemma create_item_cases:
  "create_item item db = (if \<exists>x\<in>set db. id' x = id' item then (Inl DuplicateKey, db)
     else (Inr item, db @ [item]))"
  by (simp add: create_item_def create_item_loop_dup create_item_loop_fresh)

lemma first_match_append_fresh:
  "\<forall>x\<in>set xs. id' x \<noteq> item_id \<Longrightarrow> id' y = item_id \<Longrightarrow>
     first_match item_id (xs @ y # ys) = Some (length xs)"
  by (induction xs) auto

subsection \<open>Create\<close>

text \<open>
  Claim C4. Whenever some stored item has the id of the new item, \<open>create_item\<close> raises
  the 400 exception (DuplicateKey) and the list it leaves behind is the list it was
  given.
\<close>

theorem create_item_duplicate:
  "\<exists>x\<in>set items_db. id' x = id' item \<Longrightarrow>
     create_item item items_db = (Inl DuplicateKey, items_db)"
  by (simp add: create_item_def create_item_loop_dup)

theorem create_item_duplicate_witness:
  "create_item pencil [pen, book] = (Inl DuplicateKey, [pen, book])"
proof -
  have h: "\<exists>x\<in>set [pen, book]. id' x = id' pencil"
    by (simp add: example_defs)
  show ?thesis by (rule create_item_duplicate [OF h])
qed

text \<open>
  Claim C8. Whenever no stored item has the id of the new item, \<open>create_item\<close> returns
  the item unchanged and leaves the old list with the item appended at its end, one
  longer than before.
\<close>

theorem create_item_fresh:
  "\<forall>x\<in>set items_db. id' x \<noteq> id' item \<Longrightarrow>
     create_item item items_db = (Inr item, items_db @ [item]) \<and>
     length (snd (create_item item items_db)) = length items_db + 1"
  by (simp add: create_item_def create_item_loop_fresh)

theorem create_item_fresh_witness:
  "create_item book [pen] = (Inr book, [pen] @ [book]) \<and>
   length (snd (create_item book [pen])) = length [pen] + 1"
proof -
  have h: "\<forall>x\<in>set [pen]. id' x \<noteq> id' book"
    by (simp add: example_defs)
  show ?thesis by (rule create_item_fresh [OF h])
qed

text \<open>
  Claim C7. Round trip: in any state in which \<open>create_item item\<close> succeeds, an
  immediately following \<open>get_item\<close> of the item's id succeeds and returns a record
  equal to the item, in each of the four fields.
\<close>

theorem create_then_get:
  "create_item item items_db = (Inr created, items_db') \<Longrightarrow>
     (\<exists>got. get_item (id' item) items_db' = (Inr got, items_db') \<and> got = item \<and>
        id' got = id' item \<and> name got = name item \<and> price got = price item \<and>
        description got = description item)"
  by (auto simp: create_item_cases get_item_first first_match_append_fresh split: if_splits)

theorem create_then_get_witness:
  "\<exists>got. get_item (id' book) [pen, book] = (Inr got, [pen, book]) \<and> got = book \<and>
     id' got = id' book \<and> name got = name book \<and> price got = price book \<and>
     description got = description book"
proof -
  have h: "create_item book [pen] = (Inr book, [pen, book])"
    by (simp add: create_item_def example_defs)
  show ?thesis by (rule create_then_get [OF h])
qed

subsection \<open>Ids that are not stored\<close>

text \<open>
  Claim C6. In every state, for an id that no stored item has, each of \<open>get_item\<close>,
  \<open>update_item\<close> and \<open>delete_item\<close> raises the 404 exception (NotFound), and the list
  the failing call leaves behind is the list it was given.
\<close>

theorem not_found:
  "\<forall>x\<in>set items_db. id' x \<noteq> item_id \<Longrightarrow>
     get_item item_id items_db = (Inl NotFound, items_db) \<and>
     update_item item_id updated_item items_db = (Inl NotFound, items_db) \<and>
     delete_item item_id items_db = (Inl NotFound, items_db)"
  using first_match_None [of item_id items_db]
  by (simp add: get_item_first update_item_first delete_item_first)

theorem not_found_witness:
  "get_item 3 [pen, book] = (Inl NotFound, [pen, book]) \<and>
   update_item 3 book12 [pen, book] = (Inl NotFound, [pen, book]) \<and>
   delete_item 3 [pen, book] = (Inl NotFound, [pen, book])"
proof -
  have h: "\<forall>x\<in>set [pen, book]. id' x \<noteq> 3"
    by (simp add: example_defs)
  show ?thesis by (rule not_found [OF h])
qed

subsection \<open>Delete\<close>

text \<open>
  Claim C9. In every state, for an id that some stored item has, \<open>delete_item\<close>
  succeeds and what it returns is exactly the dict with the one key \<^verbatim>\<open>message\<close>
  and the value \<^verbatim>\<open>Item deleted successfully\<close>.
\<close>

theorem delete_item_acknowledges:
  "\<exists>x\<in>set items_db. id' x = item_id \<Longrightarrow>
     fst (delete_item item_id items_db) = Inr deleted_message \<and>
     deleted_message = [''message'' \<mapsto> ''Item deleted successfully'']"
  using first_match_exists [of items_db item_id]
  by (auto simp: delete_item_first deleted_message_def)

theorem delete_item_acknowledges_witness:
  "fst (delete_item 1 [pen, book]) = Inr deleted_message \<and>
   deleted_message = [''message'' \<mapsto> ''Item deleted successfully'']"
proof -
  have h: "\<exists>x\<in>set [pen, book]. id' x = 1"
    by (simp add: example_defs)
  show ?thesis by (rule delete_item_acknowledges [OF h])
qed

subsection \<open>Update\<close>

text \<open>
  Claim C3. In every state (so in every reachable one), if \<open>update_item item_id\<close>
  succeeds then it returns the new item; the list it leaves behind is the old list
  with the record at the position of the first match replaced by the new item, whole,
  whatever id the new item carries; and when the new item's id is the path id, a
  following \<open>get_item item_id\<close> returns exactly the new item. When the new item's id
  differs from the path id (the caveat of the claim), the following \<open>get_item item_id\<close>
  does not return the new item.
\<close>

theorem update_item_replaces:
  "update_item item_id updated_item items_db = (Inr returned, items_db') \<Longrightarrow>
     returned = updated_item \<and>
     (\<exists>idx<length items_db. id' (items_db ! idx) = item_id \<and>
        (\<forall>j<idx. id' (items_db ! j) \<noteq> item_id) \<and>
        items_db' = items_db[idx := updated_item] \<and> items_db' ! idx = updated_item) \<and>
     (id' updated_item = item_id \<longrightarrow>
        get_item item_id items_db' = (Inr updated_item, items_db')) \<and>
     (id' updated_item \<noteq> item_id \<longrightarrow>
        fst (get_item item_id items_db') \<noteq> Inr updated_item)"
proof -
  assume upd: "update_item item_id updated_item items_db = (Inr returned, items_db')"
  then obtain idx where fm: "first_match item_id items_db = Some idx"
    and ret: "returned = updated_item" and db': "items_db' = items_db[idx := updated_item]"
    by (auto simp: update_item_first split: option.splits)
  from first_match_SomeD [OF fm] have idx: "idx < length items_db"
    and hit: "id' (items_db ! idx) = item_id"
    and before: "\<forall>j<idx. id' (items_db ! j) \<noteq> item_id"
    by simp_all
  have at: "items_db' ! idx = updated_item"
    using idx db' by simp
  have same: "id' updated_item = item_id \<Longrightarrow>
      get_item item_id items_db' = (Inr updated_item, items_db')"
  proof -
    assume eq: "id' updated_item = item_id"
    have "first_match item_id items_db' = Some idx"
    proof (rule first_match_SomeI)
      show "idx < length items_db'" using idx db' by simp
      show "id' (items_db' ! idx) = item_id" using at eq by simp
      show "\<forall>j<idx. id' (items_db' ! j) \<noteq> item_id" using before db' by simp
    qed
    then show ?thesis using at by (simp add: get_item_first)
  qed
  have other: "id' updated_item \<noteq> item_id \<Longrightarrow>
      fst (get_item item_id items_db') \<noteq> Inr updated_item"
    by (auto simp: get_item_first split: option.splits dest: first_match_SomeD)
  from ret idx hit before db' at same other show ?thesis by blast
qed

theorem update_item_replaces_witness:
  "update_item 2 book12 [pen, book] = (Inr book12, [pen, book12]) \<and>
   get_item 2 [pen, book12] = (Inr book12, [pen, book12])"
proof -
  have h: "update_item 2 book12 [pen, book] = (Inr book12, [pen, book12])"
    by (simp add: update_item_def enumerate_eq_zip upt_rec example_defs)
  have i: "id' book12 = 2"
    by (simp add: example_defs)
  from update_item_replaces [OF h] i
  have "get_item 2 [pen, book12] = (Inr book12, [pen, book12])" by blast
  with h show ?thesis by (rule conjI)
qed

subsection \<open>First match\<close>

lemma del_at_length: "i < length xs \<Longrightarrow> Suc (length (del_at i xs)) = length xs"
  by (auto simp: del_at_def)

lemma del_at_nth_before: "j < i \<Longrightarrow> i < length xs \<Longrightarrow> del_at i xs ! j = xs ! j"
  by (simp add: del_at_def nth_append)

lemma del_at_nth_after:
  "i \<le> j \<Longrightarrow> Suc j < length xs \<Longrightarrow> del_at i xs ! j = xs ! Suc j"
  by (auto simp: del_at_def nth_append min_def)

text \<open>
  Claim C10. In every state, also one in which several stored items share the id,
  when some stored item has the id there is a position \<open>idx\<close>, the first one in
  insertion order whose item has the id, on which all three handlers act:
  \<open>get_item\<close> returns the record at \<open>idx\<close>; \<open>update_item\<close> replaces the record at
  \<open>idx\<close> and leaves the length and every other position as they were;
  \<open>delete_item\<close> removes position \<open>idx\<close> only, so the records before it stay where
  they were and the records after it move up by one, in the same order.
\<close>

theorem first_match_frame:
  "\<exists>x\<in>set items_db. id' x = item_id \<Longrightarrow>
     (\<exists>idx<length items_db.
        id' (items_db ! idx) = item_id \<and> (\<forall>j<idx. id' (items_db ! j) \<noteq> item_id) \<and>
        get_item item_id items_db = (Inr (items_db ! idx), items_db) \<and>
        update_item item_id updated_item items_db =
          (Inr updated_item, items_db[idx := updated_item]) \<and>
        length (snd (update_item item_id updated_item items_db)) = length items_db \<and>
        snd (update_item item_id updated_item items_db) ! idx = updated_item \<and>
        (\<forall>j<length items_db. j \<noteq> idx \<longrightarrow>
           snd (update_item item_id updated_item items_db) ! j = items_db ! j) \<and>
        delete_item item_id items_db =
          (Inr deleted_message, take idx items_db @ drop (Suc idx) items_db) \<and>
        Suc (length (snd (delete_item item_id items_db))) = length items_db \<and>
        (\<forall>j<idx. snd (delete_item item_id items_db) ! j = items_db ! j) \<and>
        (\<forall>j. idx \<le> j \<and> Suc j < length items_db \<longrightarrow>
           snd (delete_item item_id items_db) ! j = items_db ! Suc j))"
proof -
  assume "\<exists>x\<in>set items_db. id' x = item_id"
  then obtain idx where fm: "first_match item_id items_db = Some idx"
    using first_match_exists by blast
  from first_match_SomeD [OF fm] have idx: "idx < length items_db"
    and hit: "id' (items_db ! idx) = item_id"
    and before: "\<forall>j<idx. id' (items_db ! j) \<noteq> item_id"
    by simp_all
  have g: "get_item item_id items_db = (Inr (items_db ! idx), items_db)"
    using fm by (simp add: get_item_first)
  have u: "update_item item_id updated_item items_db =
      (Inr updated_item, items_db[idx := updated_item])"
    using fm by (simp add: update_item_first)
  have d: "delete_item item_id items_db = (Inr deleted_message, del_at idx items_db)"
    using fm by (simp add: delete_item_first)
  have u1: "length (snd (update_item item_id updated_item items_db)) = length items_db"
    by (simp add: u)
  have u2: "snd (update_item item_id updated_item items_db) ! idx = updated_item"
    using idx by (simp add: u)
  have u3: "\<forall>j<length items_db. j \<noteq> idx \<longrightarrow>
      snd (update_item item_id updated_item items_db) ! j = items_db ! j"
    by (simp add: u)
  have d0: "delete_item item_id items_db =
      (Inr deleted_message, take idx items_db @ drop (Suc idx) items_db)"
    using d by (simp add: del_at_def)
  have d1: "Suc (length (snd (delete_item item_id items_db))) = length items_db"
    using idx by (simp add: d del_at_length)
  have d2: "\<forall>j<idx. snd (delete_item item_id items_db) ! j = items_db ! j"
    using idx by (simp add: d del_at_nth_before)
  have d3: "\<forall>j. idx \<le> j \<and> Suc j < length items_db \<longrightarrow>
      snd (delete_item item_id items_db) ! j = items_db ! Suc j"
    by (simp add: d del_at_nth_after)
  from idx hit before g u u1 u2 u3 d0 d1 d2 d3 show ?thesis by blast
qed


theorem first_match_frame_witness:
  "\<exists>idx<length [book, pen, pencil].
      id' ([book, pen, pencil] ! idx) = 1 \<and> (\<forall>j<idx. id' ([book, pen, pencil] ! j) \<noteq> 1) \<and>
      get_item 1 [book, pen, pencil] = (Inr ([book, pen, pencil] ! idx), [book, pen, pencil]) \<and>
      update_item 1 book12 [book, pen, pencil] =
        (Inr book12, [book, pen, pencil][idx := book12]) \<and>
      length (snd (update_item 1 book12 [book, pen, pencil])) = length [book, pen, pencil] \<and>
      snd (update_item 1 book12 [book, pen, pencil]) ! idx = book12 \<and>
      (\<forall>j<length [book, pen, pencil]. j \<noteq> idx \<longrightarrow>
         snd (update_item 1 book12 [book, pen, pencil]) ! j = [book, pen, pencil] ! j) \<and>
      delete_item 1 [book, pen, pencil] =
        (Inr deleted_message, take idx [book, pen, pencil] @ drop (Suc idx) [book, pen, pencil]) \<and>
      Suc (length (snd (delete_item 1 [book, pen, pencil]))) = length [book, pen, pencil] \<and>
      (\<forall>j<idx. snd (delete_item 1 [book, pen, pencil]) ! j = [book, pen, pencil] ! j) \<and>
      (\<forall>j. idx \<le> j \<and> Suc j < length [book, pen, pencil] \<longrightarrow>
         snd (delete_item 1 [book, pen, pencil]) ! j = [book, pen, pencil] ! Suc j)"
proof -
  have h: "\<exists>x\<in>set [book, pen, pencil]. id' x = 1"
    by (simp add: example_defs)
  show ?thesis by (rule first_match_frame [OF h])
qed

subsection \<open>Listing\<close>

lemma handle_create_fresh:
  "\<forall>x\<in>set db. id' x \<noteq> id' item \<Longrightarrow> handle (Create item) db = db @ [item]"
  by (simp add: create_item_cases)

lemma run_creates:
  "distinct (map id' (db @ items)) \<Longrightarrow> run (map Create items) db = db @ items"
proof (induction items arbitrary: db)
  case Nil
  then show ?case by simp
next
  case (Cons item items)
  from Cons.prems have fresh: "\<forall>x\<in>set db. id' x \<noteq> id' item"
    by (auto simp: image_iff)
  from Cons.prems have "distinct (map id' ((db @ [item]) @ items))"
    by simp
  then have step: "run (map Create items) (db @ [item]) = (db @ [item]) @ items"
    by (rule Cons.IH)
  have "run (map Create (item # items)) db = run (map Create items) (handle (Create item) db)"
    by simp
  also have "\<dots> = run (map Create items) (db @ [item])"
    by (simp only: handle_create_fresh [OF fresh])
  also have "\<dots> = db @ item # items"
    using step by simp
  finally show ?case .
qed

text \<open>
  Claim C5. After the calls \<open>create_item\<close> of a sequence of items with pairwise
  distinct ids, starting from the empty list, \<open>get_all_items\<close> returns exactly those
  items in the order of the calls. In every state \<open>get_all_items\<close> returns a list and
  raises nothing, and on the empty list it returns the empty list.
\<close>

theorem list_all_after_creates:
  "distinct (map id' items) \<Longrightarrow>
     get_all_items (run (map Create items) []) = (Inr items, items) \<and>
     (\<exists>listed. get_all_items items_db = (Inr listed, items_db)) \<and>
     get_all_items [] = (Inr [], [])"
  using run_creates [of "[]" items] by (simp add: get_all_items_def)

theorem list_all_after_creates_witness:
  "get_all_items (run (map Create [book, pen]) []) = (Inr [book, pen], [book, pen]) \<and>
   (\<exists>listed. get_all_items [pencil] = (Inr listed, [pencil])) \<and>
   get_all_items [] = (Inr [], [])"
proof -
  have h: "distinct (map id' [book, pen])"
    by (simp add: example_defs)
  show ?thesis by (rule list_all_after_creates [OF h])
qed

subsection \<open>Uniqueness of ids and the update with another id\<close>

text \<open>
  Every handler keeps the ids of the stored items pairwise distinct, provided that no
  update carries a body whose id differs from the id of the path.
\<close>

lemma distinct_del_at: "distinct xs \<Longrightarrow> distinct (del_at i xs)"
  by (simp add: del_at_def set_take_disj_set_drop_if_distinct)

lemma map_del_at: "map f (del_at i xs) = del_at i (map f xs)"
  by (simp add: del_at_def take_map drop_map)

lemma unique_ids_create: "unique_ids db \<Longrightarrow> unique_ids (snd (create_item item db))"
  by (auto simp: unique_ids_def create_item_cases image_iff)

lemma unique_ids_delete: "unique_ids db \<Longrightarrow> unique_ids (snd (delete_item item_id db))"
  by (auto simp: unique_ids_def delete_item_first map_del_at distinct_del_at
      split: option.splits)

lemma unique_ids_update:
  assumes "unique_ids db" and "id' updated_item = item_id"
  shows "unique_ids (snd (update_item item_id updated_item db))"
proof (cases "first_match item_id db")
  case None
  with assms show ?thesis by (simp add: update_item_first)
next
  case (Some idx)
  from first_match_SomeD [OF Some] assms(2)
  have "(map id' db)[idx := id' updated_item] = map id' db"
    by (simp add: list_update_same_conv)
  with assms(1) Some show ?thesis
    by (simp add: unique_ids_def update_item_first map_update)
qed

lemma unique_ids_handle: "unique_ids db \<Longrightarrow> id_kept r \<Longrightarrow> unique_ids (handle r db)"
  by (cases r)
    (simp_all add: unique_ids_create unique_ids_delete unique_ids_update
      get_all_items_def get_item_first split: option.splits)

lemma unique_ids_run:
  "unique_ids db \<Longrightarrow> \<forall>r\<in>set rs. id_kept r \<Longrightarrow> unique_ids (run rs db)"
  by (induction rs arbitrary: db) (simp_all add: unique_ids_handle)

text \<open>
  In a state with pairwise distinct ids, a successful \<open>delete_item\<close> is followed by a
  \<open>get_item\<close> that raises 404; in every state it shortens the list by one.
\<close>

lemma unique_ids_nth:
  "unique_ids db \<Longrightarrow> i < length db \<Longrightarrow> j < length db \<Longrightarrow> id' (db ! i) = id' (db ! j) \<Longrightarrow>
     i = j"
  by (auto simp: unique_ids_def distinct_conv_nth)

lemma set_del_at: "set (del_at i xs) \<subseteq> {xs ! k | k. k < length xs \<and> k \<noteq> i}"
proof
  fix x
  assume "x \<in> set (del_at i xs)"
  then consider "x \<in> set (take i xs)" | "x \<in> set (drop (Suc i) xs)"
    by (auto simp: del_at_def)
  then show "x \<in> {xs ! k | k. k < length xs \<and> k \<noteq> i}"
  proof cases
    case 1
    then obtain k where "k < length (take i xs)" "take i xs ! k = x"
      by (auto simp: in_set_conv_nth)
    then have "k < length xs" "k \<noteq> i" "xs ! k = x" by auto
    then show ?thesis by blast
  next
    case 2
    then obtain k where "k < length (drop (Suc i) xs)" "drop (Suc i) xs ! k = x"
      by (auto simp: in_set_conv_nth)
    then have "Suc i + k < length xs" "Suc i + k \<noteq> i" "xs ! (Suc i + k) = x" by auto
    then show ?thesis by blast
  qed
qed

lemma delete_item_length:
  "delete_item item_id db = (Inr ack, db') \<Longrightarrow> Suc (length db') = length db"
  by (auto simp: delete_item_first del_at_length split: option.splits dest: first_match_SomeD)

lemma delete_then_get_unique:
  assumes "unique_ids db" and "delete_item item_id db = (Inr ack, db')"
  shows "get_item item_id db' = (Inl NotFound, db')"
proof -
  from assms(2) obtain idx where fm: "first_match item_id db = Some idx"
    and db': "db' = del_at idx db"
    by (auto simp: delete_item_first split: option.splits)
  from first_match_SomeD [OF fm] have idx: "idx < length db" "id' (db ! idx) = item_id"
    by simp_all
  have "\<forall>x\<in>set db'. id' x \<noteq> item_id"
  proof
    fix x
    assume "x \<in> set db'"
    with db' set_del_at [of idx db] obtain k where k: "k < length db" "k \<noteq> idx" "x = db ! k"
      by auto
    show "id' x \<noteq> item_id"
    proof
      assume "id' x = item_id"
      with k idx have "id' (db ! k) = id' (db ! idx)" by simp
      with assms(1) k idx have "k = idx" by (intro unique_ids_nth)
      with k show False by simp
    qed
  qed
  then have "first_match item_id db' = None"
    by (simp add: first_match_None)
  then show ?thesis by (simp add: get_item_first)
qed

text \<open>
  The requests \<^verbatim>\<open>POST {id:1,...}\<close>, \<^verbatim>\<open>POST {id:2,...}\<close>, \<^verbatim>\<open>PUT /items/2\<close> with a
  body of id 1 leave two stored items of id 1: \<open>update_item\<close> stores the body without
  the scan for a stored id that \<open>create_item\<close> makes.
\<close>

lemma run_example:
  "run [Create pen, Create book, Update 2 pencil] [] = [pen, pencil]"
  by (simp add: create_item_def update_item_def enumerate_eq_zip upt_rec example_defs)

text \<open>
  Claim C1 (the code departs from it). The state reached by the three requests above
  holds two items with the id 1, so uniqueness of ids is not an invariant of the
  reachable states.
\<close>

theorem update_breaks_unique_ids:
  "run [Create pen, Create book, Update 2 pencil] [] = [pen, pencil] \<and>
   reachable [pen, pencil] \<and> \<not> unique_ids [pen, pencil]"
proof -
  have r: "run [Create pen, Create book, Update 2 pencil] [] = [pen, pencil]"
    by (rule run_example)
  then have "reachable [pen, pencil]"
    unfolding reachable_def by (intro exI [of _ "[Create pen, Create book, Update 2 pencil]"]) simp
  moreover have "\<not> unique_ids [pen, pencil]"
    by (simp add: unique_ids_def example_defs)
  ultimately show ?thesis using r by simp
qed

text \<open>
  Claim C2 (the code departs from it). In that reachable state \<open>delete_item 1\<close>
  succeeds and removes the first item of id 1; the following \<open>get_item 1\<close> does not raise
  404 but returns the second one.
\<close>

theorem delete_then_get_finds_duplicate:
  "run [Create pen, Create book, Update 2 pencil] [] = [pen, pencil] \<and>
   delete_item 1 [pen, pencil] = (Inr deleted_message, [pencil]) \<and>
   get_item 1 [pencil] = (Inr pencil, [pencil])"
proof -
  have d: "delete_item 1 [pen, pencil] = (Inr deleted_message, [pencil])"
    by (simp add: delete_item_def del_at_def enumerate_eq_zip upt_rec example_defs)
  have g: "get_item 1 [pencil] = (Inr pencil, [pencil])"
    by (simp add: get_item_def example_defs)
  from run_example d g show ?thesis by simp
qed

end
